theory Spec2Isabelle
  imports Main "HOL-Library.Word" "HOL-Library.Sublist"
begin

unbundle bit_operations_syntax

section \<open>Bytes, strings and the string helpers of the Go standard library\<close>

text \<open>
  A Go byte is an 8-bit word. Go strings hold bytes too; the strings handled by the
  meta-tag scanner (tag names, attribute keys and values, charset labels) are modelled as
  HOL strings, whose characters are 8-bit as well.
\<close>

type_synonym byte = "8 word"

text \<open>The cutset \<^verbatim>\<open>" \t\n\f\r"\<close> of \<^verbatim>\<open>strings.TrimLeft\<close> in \<^verbatim>\<open>fromMetaElement\<close>.\<close>

definition whitespace :: string where
  "whitespace = [CHR '' '', CHR 0x09, CHR 0x0A, CHR 0x0C, CHR 0x0D]"

text \<open>\<^verbatim>\<open>strings.TrimLeft(s, cutset)\<close>: drop the leading characters that are in the cutset.\<close>

definition TrimLeft :: "string \<Rightarrow> string \<Rightarrow> string" where
  "TrimLeft s cutset = dropWhile (\<lambda>c. c \<in> set cutset) s"

text \<open>
  \<^verbatim>\<open>strings.Index(s, substr)\<close>: the index of the first instance of \<open>substr\<close> in \<open>s\<close>;
  Go's \<open>-1\<close> is \<open>None\<close>.
\<close>

fun Index :: "string \<Rightarrow> string \<Rightarrow> nat option" where
  "Index [] substr = (if substr = [] then Some 0 else None)"
| "Index (c # s) substr =
     (if prefix substr (c # s) then Some 0 else map_option Suc (Index s substr))"

text \<open>
  \<^verbatim>\<open>strings.IndexRune(s, r)\<close> for an ASCII rune (here a quote character) and
  \<^verbatim>\<open>strings.IndexAny(s, chars)\<close> for ASCII \<open>chars\<close>: the index of the first character of
  \<open>s\<close> that satisfies the test.
\<close>

fun IndexFunc :: "string \<Rightarrow> (char \<Rightarrow> bool) \<Rightarrow> nat option" where
  "IndexFunc [] p = None"
| "IndexFunc (c # s) p = (if p c then Some 0 else map_option Suc (IndexFunc s p))"

definition IndexRune :: "string \<Rightarrow> char \<Rightarrow> nat option" where
  "IndexRune s r = IndexFunc s (\<lambda>c. c = r)"

definition IndexAny :: "string \<Rightarrow> string \<Rightarrow> nat option" where
  "IndexAny s chars = IndexFunc s (\<lambda>c. c \<in> set chars)"

section \<open>The micro-parser \<^verbatim>\<open>fromMetaElement\<close>\<close>

text \<open>
  The loop \<^verbatim>\<open>for s != ""\<close> of \<^verbatim>\<open>fromMetaElement\<close>. Its \<^verbatim>\<open>continue\<close> (no \<open>=\<close> after
  the occurrence of \<open>charset\<close> and the whitespace behind it) is the recursive call on the
  remainder; every other path returns.
\<close>

function fromMetaElement :: "string \<Rightarrow> string" where
  "fromMetaElement s =
     (if s = [] then []
      else case Index s ''charset'' of
        None \<Rightarrow> []
      | Some csLoc \<Rightarrow>
          (let s1 = TrimLeft (drop (csLoc + length ''charset'') s) whitespace in
           if \<not> prefix ''='' s1 then fromMetaElement s1
           else
             (let s2 = TrimLeft (drop 1 s1) whitespace in
              if s2 = [] then []
              else
                (let q = hd s2 in
                 if q = CHR 0x22 \<or> q = CHR 0x27 then
                   (let s3 = drop 1 s2 in
                    case IndexRune s3 q of
                      None \<Rightarrow> []
                    | Some closeQuote \<Rightarrow> take closeQuote s3)
                 else
                   (let end = (case IndexAny s2 (CHR '';'' # whitespace) of
                                 None \<Rightarrow> length s2
                               | Some i \<Rightarrow> i)
                    in take end s2)))))"
  by pat_completeness auto
termination
proof (relation "measure length")
  show "wf (measure length)" by simp
next
  fix s :: string and csLoc s1
  assume ix: "Index s ''charset'' = Some csLoc"
    and s1: "s1 = TrimLeft (drop (csLoc + length ''charset'') s) whitespace"
  have bound: "i + length substr \<le> length t" if "Index t substr = Some i" for t substr i
    using that
  proof (induction t arbitrary: i)
    case Nil
    then show ?case by (simp split: if_splits)
  next
    case (Cons c t)
    show ?case
    proof (cases "prefix substr (c # t)")
      case True
      with Cons.prems have "i = 0" by simp
      with prefix_length_le [OF True] show ?thesis by simp
    next
      case False
      with Cons.prems obtain j where j: "Index t substr = Some j" "i = Suc j"
        by auto
      from Cons.IH [OF j(1)] j(2) show ?thesis by simp
    qed
  qed
  from ix have "csLoc + length ''charset'' \<le> length s"
    by (rule bound)
  moreover have "length s1 \<le> length s - (csLoc + length ''charset'')"
    using length_dropWhile_le [of "\<lambda>c. c \<in> set whitespace" "drop (csLoc + length ''charset'') s"] s1
    by (simp add: TrimLeft_def)
  ultimately show "(s1, s) \<in> measure length" by simp
qed

declare fromMetaElement.simps [simp del]

text \<open>
  The value that the specification describes after the \<open>=\<close> and the whitespace behind it:
  a quoted value, ended by the matching quote and empty when the quote is not closed, or
  an unquoted token, ended by whitespace or \<open>;\<close>. It is written from the specification's
  words, to be compared with \<open>fromMetaElement\<close>.
\<close>

fun charset_value :: "string \<Rightarrow> string" where
  "charset_value [] = []"
| "charset_value (q # w) =
     (if q = CHR 0x22 \<or> q = CHR 0x27
      then (if q \<in> set w then takeWhile (\<lambda>c. c \<noteq> q) w else [])
      else takeWhile (\<lambda>c. c \<notin> set (CHR '';'' # whitespace)) (q # w))"

section \<open>Readers\<close>

text \<open>
  An \<^verbatim>\<open>io.Reader\<close> is modelled by what it delivers: the bytes still to come, and the
  error with which it ends once they are read (\<open>EOF\<close> for a regular end of stream, a
  failure otherwise). How the bytes are cut into single \<^verbatim>\<open>Read\<close> calls is not
  modelled: \<^verbatim>\<open>io.ReadFull\<close> and \<^verbatim>\<open>ioutil.ReadAll\<close>, the only consumers here, loop
  over \<^verbatim>\<open>Read\<close> until their buffer is full or an error comes.
\<close>

datatype ioerr = EOF | ErrUnexpectedEOF | IOFailure string

record reader =
  pending :: "byte list"
  final :: ioerr

text \<open>\<^verbatim>\<open>bytes.NewReader(b)\<close> (and \<^verbatim>\<open>strings.NewReader\<close>).\<close>

definition bytes_NewReader :: "byte list \<Rightarrow> reader" where
  "bytes_NewReader b = \<lparr>pending = b, final = EOF\<rparr>"

text \<open>
  \<^verbatim>\<open>io.MultiReader(a, b)\<close>: the bytes of \<open>a\<close>, then, when \<open>a\<close> ends with \<open>EOF\<close>,
  those of \<open>b\<close>; a failure of \<open>a\<close> is returned as it is.
\<close>

definition MultiReader :: "reader \<Rightarrow> reader \<Rightarrow> reader" where
  "MultiReader a b =
     (if final a = EOF then \<lparr>pending = pending a @ pending b, final = final b\<rparr> else a)"

text \<open>
  \<^verbatim>\<open>io.ReadFull(r, buf)\<close> with \<open>len(buf) = k\<close>: the bytes read, the error (\<open>None\<close> is
  Go's \<open>nil\<close>) and the reader after the call. With fewer than \<open>k\<close> bytes before a regular
  end the error is \<open>EOF\<close> when nothing was read and \<open>ErrUnexpectedEOF\<close> otherwise.
\<close>

definition ReadFull :: "nat \<Rightarrow> reader \<Rightarrow> (byte list \<times> ioerr option) \<times> reader" where
  "ReadFull k r =
     (if k \<le> length (pending r)
      then ((take k (pending r), None), r\<lparr>pending := drop k (pending r)\<rparr>)
      else ((pending r,
             Some (if final r = EOF
                   then (if pending r = [] then EOF else ErrUnexpectedEOF)
                   else final r)),
            r\<lparr>pending := []\<rparr>))"

text \<open>\<^verbatim>\<open>ioutil.ReadAll(r)\<close>: every byte up to the end; \<open>EOF\<close> is not reported as an error.\<close>

definition ReadAll :: "reader \<Rightarrow> byte list \<times> ioerr option" where
  "ReadAll r = (pending r, if final r = EOF then None else Some (final r))"

section \<open>Encodings and the packages the repository calls\<close>

text \<open>
  An \<^verbatim>\<open>encoding.Encoding\<close> is compared by identity only: \<^verbatim>\<open>encoding.Nop\<close>,
  \<^verbatim>\<open>charmap.ISO8859_1\<close>, or any other encoding of the registry, known by its name.
  A \<open>nil\<close> encoding is \<open>None\<close>.
\<close>

datatype encoding = Nop | ISO8859_1 | Charset string

text \<open>
  The tokens of \<^verbatim>\<open>html.Tokenizer\<close>, as far as \<^verbatim>\<open>prescan\<close> looks at them: the token
  type from \<^verbatim>\<open>z.Next()\<close>, and for a tag its name (\<^verbatim>\<open>z.TagName()\<close>) and its attributes
  in the order in which \<^verbatim>\<open>z.TagAttr()\<close> delivers them.
\<close>

datatype token =
    ErrorToken
  | TextToken
  | StartTagToken string "(string \<times> string) list"
  | EndTagToken
  | SelfClosingTagToken string "(string \<times> string) list"
  | CommentToken
  | DoctypeToken

text \<open>
  The functions of \<^verbatim>\<open>golang.org/x/net/html\<close>, \<^verbatim>\<open>golang.org/x/net/html/charset\<close>,
  \<^verbatim>\<open>golang.org/x/text/transform\<close> and \<^verbatim>\<open>mime\<close> that the repository calls are not part
  of it. They are parameters of the model:
  \<^item> \<open>charset_Lookup\<close> is \<^verbatim>\<open>charset.Lookup\<close>, from a label to an encoding and its
    canonical name;
  \<^item> \<open>mime_ParseMediaType\<close> is \<^verbatim>\<open>mime.ParseMediaType\<close>, giving the parameters of a
    content type, \<open>None\<close> when it returns an error;
  \<^item> \<open>html_Tokenizer\<close> gives the tokens that \<^verbatim>\<open>html.NewTokenizer\<close> delivers for a
    content up to its first error token; after them \<^verbatim>\<open>z.Next()\<close> is \<open>ErrorToken\<close>;
  \<^item> \<open>transform_NewReader e r\<close> is \<^verbatim>\<open>transform.NewReader(r, e.NewDecoder())\<close>.
\<close>

record env =
  charset_Lookup :: "string \<Rightarrow> encoding option \<times> string"
  mime_ParseMediaType :: "string \<Rightarrow> (string \<rightharpoonup> string) option"
  html_Tokenizer :: "byte list \<Rightarrow> token list"
  transform_NewReader :: "encoding \<Rightarrow> reader \<Rightarrow> reader"

section \<open>The meta-tag scan \<^verbatim>\<open>prescan\<close>\<close>

text \<open>The constants \<^verbatim>\<open>dontKnow\<close>, \<^verbatim>\<open>doNeedPragma\<close>, \<^verbatim>\<open>doNotNeedPragma\<close>.\<close>

datatype pragma = dontKnow | doNeedPragma | doNotNeedPragma

text \<open>
  The variables of \<^verbatim>\<open>prescan\<close> that live through the attributes of one tag; \<open>meta_e\<close>
  and \<open>meta_name\<close> are the results \<^verbatim>\<open>e\<close> and \<^verbatim>\<open>name\<close>.
\<close>

record meta =
  attrList :: "string list"
  gotPragma :: bool
  needPragma :: pragma
  meta_e :: "encoding option"
  meta_name :: string

text \<open>The lower-casing loop \<^verbatim>\<open>if 'A' <= c && c <= 'Z' { val[i] = c + 0x20 }\<close>.\<close>

definition lower :: "string \<Rightarrow> string" where
  "lower val =
     map (\<lambda>c. if of_char CHR ''A'' \<le> (of_char c :: nat) \<and> (of_char c :: nat) \<le> of_char CHR ''Z''
              then char_of (of_char c + (0x20 :: nat)) else c) val"

text \<open>
  One round of \<^verbatim>\<open>for hasAttr\<close>: a key seen before is skipped, otherwise it is recorded,
  the value is lower-cased and the \<^verbatim>\<open>switch ks\<close> runs.
\<close>

definition attr_step :: "env \<Rightarrow> string \<times> string \<Rightarrow> meta \<Rightarrow> meta" where
  "attr_step lib kv m =
     (let ks = fst kv in
      if ks \<in> set (attrList m) then m
      else
        (let m = m\<lparr>attrList := ks # attrList m\<rparr>;
             val = lower (snd kv)
         in
           if ks = ''http-equiv'' then
             (if val = ''content-type'' then m\<lparr>gotPragma := True\<rparr> else m)
           else if ks = ''content'' then
             (if meta_e m = None then
                (let nm = fromMetaElement val in
                 if nm \<noteq> [] then
                   (let (enc, nm) = charset_Lookup lib nm in
                    if enc \<noteq> None then m\<lparr>meta_e := enc, meta_name := nm, needPragma := doNeedPragma\<rparr>
                    else m\<lparr>meta_e := enc, meta_name := nm\<rparr>)
                 else m\<lparr>meta_name := nm\<rparr>)
              else m)
           else if ks = ''charset'' then
             (let (enc, nm) = charset_Lookup lib val in
              m\<lparr>meta_e := enc, meta_name := nm, needPragma := doNotNeedPragma\<rparr>)
           else m))"

fun attr_loop :: "env \<Rightarrow> (string \<times> string) list \<Rightarrow> meta \<Rightarrow> meta" where
  "attr_loop lib [] m = m"
| "attr_loop lib (kv # attrs) m = attr_loop lib attrs (attr_step lib kv m)"

text \<open>
  The body of the \<^verbatim>\<open>case html.StartTagToken, html.SelfClosingTagToken\<close> for one tag:
  \<open>None\<close> when the loop over the tokens goes on (either \<^verbatim>\<open>continue\<close>, or the end of the
  body with \<open>e = nil\<close>), \<open>Some\<close> of the pair that \<^verbatim>\<open>prescan\<close> returns otherwise.
\<close>

definition meta_tag :: "env \<Rightarrow> string \<Rightarrow> (string \<times> string) list \<Rightarrow> (encoding option \<times> string) option" where
  "meta_tag lib tagName attrs =
     (if tagName \<noteq> ''meta'' then None
      else
        (let m = attr_loop lib attrs
                   \<lparr>attrList = [], gotPragma = False, needPragma = dontKnow, meta_e = None, meta_name = []\<rparr>
         in
           if needPragma m = dontKnow \<or> needPragma m = doNeedPragma \<and> \<not> gotPragma m then None
           else
             (let (enc, nm) = (if prefix ''utf-16'' (meta_name m) then (Some Nop, ''utf-8'')
                               else (meta_e m, meta_name m))
              in if enc \<noteq> None then Some (enc, nm) else None)))"

text \<open>The loop \<^verbatim>\<open>for { switch z.Next() ... }\<close> over the tokens.\<close>

fun prescan_tokens :: "env \<Rightarrow> token list \<Rightarrow> encoding option \<times> string" where
  "prescan_tokens lib [] = (None, [])"
| "prescan_tokens lib (ErrorToken # ts) = (None, [])"
| "prescan_tokens lib (StartTagToken tagName attrs # ts) =
     (case meta_tag lib tagName attrs of
        Some found \<Rightarrow> found
      | None \<Rightarrow> prescan_tokens lib ts)"
| "prescan_tokens lib (SelfClosingTagToken tagName attrs # ts) =
     (case meta_tag lib tagName attrs of
        Some found \<Rightarrow> found
      | None \<Rightarrow> prescan_tokens lib ts)"
| "prescan_tokens lib (t # ts) = prescan_tokens lib ts"

definition prescan :: "env \<Rightarrow> byte list \<Rightarrow> encoding option \<times> string" where
  "prescan lib content = prescan_tokens lib (html_Tokenizer lib content)"

section \<open>The encoding resolver \<^verbatim>\<open>determineEncoding\<close>\<close>

text \<open>\<^verbatim>\<open>utf8.RuneStart(b)\<close>: \<open>b\<close> is not a continuation byte.\<close>

definition RuneStart :: "byte \<Rightarrow> bool" where
  "RuneStart b = (b AND 0xC0 \<noteq> 0x80)"

text \<open>
  \<^verbatim>\<open>utf8.Valid(p)\<close> of the Go standard library. \<open>first\<close> is its table of leading bytes:
  the size of the sequence and the range accepted for its second byte, \<open>None\<close> for a byte
  that starts no sequence. The bytes after the second are continuation bytes
  \<open>0x80..0xBF\<close>.
\<close>

definition first :: "byte \<Rightarrow> (nat \<times> byte \<times> byte) option" where
  "first b =
     (if 0xC2 \<le> b \<and> b \<le> 0xDF then Some (2, 0x80, 0xBF)
      else if b = 0xE0 then Some (3, 0xA0, 0xBF)
      else if 0xE1 \<le> b \<and> b \<le> 0xEC then Some (3, 0x80, 0xBF)
      else if b = 0xED then Some (3, 0x80, 0x9F)
      else if 0xEE \<le> b \<and> b \<le> 0xEF then Some (3, 0x80, 0xBF)
      else if b = 0xF0 then Some (4, 0x90, 0xBF)
      else if 0xF1 \<le> b \<and> b \<le> 0xF3 then Some (4, 0x80, 0xBF)
      else if b = 0xF4 then Some (4, 0x80, 0x8F)
      else None)"

function utf8_Valid :: "byte list \<Rightarrow> bool" where
  "utf8_Valid p =
     (case p of
        [] \<Rightarrow> True
      | pi # rest \<Rightarrow>
          if pi < 0x80 then utf8_Valid rest
          else
            (case first pi of
               None \<Rightarrow> False
             | Some x \<Rightarrow>
                 (let size = fst x; lo = fst (snd x); hi = snd (snd x) in
                  if size > length p then False
                  else if p ! 1 < lo \<or> hi < p ! 1 then False
                  else if size = 2 then utf8_Valid (drop (size - 1) rest)
                  else if p ! 2 < 0x80 \<or> 0xBF < p ! 2 then False
                  else if size = 3 then utf8_Valid (drop (size - 1) rest)
                  else if p ! 3 < 0x80 \<or> 0xBF < p ! 3 then False
                  else utf8_Valid (drop (size - 1) rest))))"
  by pat_completeness auto
termination
  by (relation "measure length") auto

declare utf8_Valid.simps [simp del]

text \<open>The table \<^verbatim>\<open>boms\<close>, in its order.\<close>

definition boms :: "(byte list \<times> string) list" where
  "boms = [([0xfe, 0xff], ''utf-16be''), ([0xff, 0xfe], ''utf-16le''), ([0xef, 0xbb, 0xbf], ''utf-8'')]"

text \<open>
  The loop \<^verbatim>\<open>for _, b := range boms\<close>: at the first signature that is a prefix of the
  content, the result of \<^verbatim>\<open>charset.Lookup\<close> for its name is returned with
  \<open>certain = true\<close>.
\<close>

fun bom_loop :: "env \<Rightarrow> byte list \<Rightarrow> (byte list \<times> string) list \<Rightarrow> (encoding option \<times> string \<times> bool) option" where
  "bom_loop lib content [] = None"
| "bom_loop lib content (b # bs) =
     (if prefix (fst b) content
      then (let (enc, nm) = charset_Lookup lib (snd b) in Some (enc, nm, True))
      else bom_loop lib content bs)"

text \<open>
  The loop \<^verbatim>\<open>for i := len(content) - 1; i >= 0 && i > len(content)-4; i--\<close>, on Go's
  signed \<open>int\<close>: it stops at an ASCII byte, and cuts the content at the first rune-start
  byte it meets.
\<close>

function trim_loop :: "byte list \<Rightarrow> int \<Rightarrow> byte list" where
  "trim_loop content i =
     (if i \<ge> 0 \<and> i > int (length content) - 4 then
        (let b = content ! nat i in
         if b < 0x80 then content
         else if RuneStart b then take (nat i) content
         else trim_loop content (i - 1))
      else content)"
  by pat_completeness auto
termination
  by (relation "measure (\<lambda>(content, i). nat (i + 1))") auto

declare trim_loop.simps [simp del]

text \<open>The loop \<^verbatim>\<open>for _, c := range content\<close> that sets \<^verbatim>\<open>hasHighBit\<close>.\<close>

fun hasHighBit :: "byte list \<Rightarrow> bool" where
  "hasHighBit [] = False"
| "hasHighBit (c # content) = (if c \<ge> 0x80 then True else hasHighBit content)"

definition determineEncoding :: "env \<Rightarrow> byte list \<Rightarrow> string \<Rightarrow> encoding option \<times> string \<times> bool" where
  "determineEncoding lib content contentType =
     (let content = (if length content > 10240 then take 10240 content else content) in
      case bom_loop lib content boms of
        Some found \<Rightarrow> found
      | None \<Rightarrow>
          (case (case mime_ParseMediaType lib contentType of
                   None \<Rightarrow> None
                 | Some params \<Rightarrow>
                     (case params ''charset'' of
                        None \<Rightarrow> None
                      | Some cs \<Rightarrow>
                          (let (enc, nm) = charset_Lookup lib cs in
                           if enc \<noteq> None then Some (enc, nm, True) else None))) of
             Some found \<Rightarrow> found
           | None \<Rightarrow>
               (case (if length content > 0
                      then (let (enc, nm) = prescan lib content in
                            if enc \<noteq> None then Some (enc, nm, False) else None)
                      else None) of
                  Some found \<Rightarrow> found
                | None \<Rightarrow>
                    (let content = trim_loop content (int (length content) - 1) in
                     if hasHighBit content \<and> utf8_Valid content
                     then (Some Nop, ''utf-8'', False)
                     else (Some ISO8859_1, ''ISO 8859-1'', False)))))"

section \<open>The readers \<^verbatim>\<open>newReader\<close> and \<^verbatim>\<open>NewReader\<close>\<close>

text \<open>
  How a call ends other than by returning a reader: \<open>Error\<close> is an error value returned
  to the caller, \<open>Panic\<close> is \<^verbatim>\<open>panic(err)\<close>, and \<open>NilDereference\<close> is the run-time panic
  of a method call on a \<open>nil\<close> encoding.
\<close>

datatype failure = Error ioerr | Panic ioerr | NilDereference

text \<open>
  \<^verbatim>\<open>newReader\<close>. The second component of the result is the argument \<open>r\<close> as the call
  leaves it, which \<^verbatim>\<open>NewReader\<close> returns when the error is \<open>EOF\<close>.
\<close>

definition newReader :: "env \<Rightarrow> reader \<Rightarrow> string \<Rightarrow> (failure + reader) \<times> reader" where
  "newReader lib r contentType =
     (case ReadFull 10240 r of
        ((preview, err), r') \<Rightarrow>
          (let go =
                 (let r1 = MultiReader (bytes_NewReader preview) r' in
                  case fst (determineEncoding lib preview contentType) of
                    None \<Rightarrow> (Inl NilDereference, r')
                  | Some enc \<Rightarrow>
                      (Inr (if enc \<noteq> Nop then transform_NewReader lib enc r1 else r1), r'))
           in
             case err of
               None \<Rightarrow> go
             | Some er \<Rightarrow> if er = ErrUnexpectedEOF then go else (Inl (Error er), r')))"

text \<open>
  \<^verbatim>\<open>NewReader\<close> of the version that carries its own \<^verbatim>\<open>newReader\<close> and
  \<^verbatim>\<open>determineEncoding\<close>. \<open>bom\<close> is the buffer \<^verbatim>\<open>make([]byte, 3)\<close> after
  \<^verbatim>\<open>io.ReadFull\<close>: the bytes read, then zeros.
\<close>

definition NewReader_001 :: "env \<Rightarrow> reader \<Rightarrow> failure + reader" where
  "NewReader_001 lib r =
     (case newReader lib r [] of
        (Inl (Error err), r') \<Rightarrow> if err = EOF then Inr r' else Inl (Panic err)
      | (Inl f, r') \<Rightarrow> Inl f
      | (Inr nr, r') \<Rightarrow>
          (case ReadFull 3 nr of
             ((got, err), nr') \<Rightarrow>
               (let n = length got;
                    bom = got @ replicate (3 - n) 0;
                    go = (if bom ! 0 \<noteq> 0xef \<or> bom ! 1 \<noteq> 0xbb \<or> bom ! 2 \<noteq> 0xbf
                          then Inr (MultiReader (bytes_NewReader bom) nr')
                          else Inr nr')
                in
                  case err of
                    None \<Rightarrow> go
                  | Some er \<Rightarrow>
                      if er \<noteq> EOF \<and> er \<noteq> ErrUnexpectedEOF then Inl (Panic er)
                      else if n < length bom then Inr (bytes_NewReader (take n bom))
                      else go)))"

text \<open>
  The two versions that call \<^verbatim>\<open>charset.NewReader\<close> of the package instead. That
  function is their parameter \<open>charset_NewReader\<close>, with the result type of
  \<^verbatim>\<open>newReader\<close> above. \<open>NewReader_000\<close> has the body of \<open>NewReader_001\<close>.
\<close>

definition NewReader_000 :: "(reader \<Rightarrow> string \<Rightarrow> (failure + reader) \<times> reader) \<Rightarrow> reader \<Rightarrow> failure + reader" where
  "NewReader_000 charset_NewReader r =
     (case charset_NewReader r [] of
        (Inl (Error err), r') \<Rightarrow> if err = EOF then Inr r' else Inl (Panic err)
      | (Inl f, r') \<Rightarrow> Inl f
      | (Inr nr, r') \<Rightarrow>
          (case ReadFull 3 nr of
             ((got, err), nr') \<Rightarrow>
               (let n = length got;
                    bom = got @ replicate (3 - n) 0;
                    go = (if bom ! 0 \<noteq> 0xef \<or> bom ! 1 \<noteq> 0xbb \<or> bom ! 2 \<noteq> 0xbf
                          then Inr (MultiReader (bytes_NewReader bom) nr')
                          else Inr nr')
                in
                  case err of
                    None \<Rightarrow> go
                  | Some er \<Rightarrow>
                      if er \<noteq> EOF \<and> er \<noteq> ErrUnexpectedEOF then Inl (Panic er)
                      else if n < length bom then Inr (bytes_NewReader (take n bom))
                      else go)))"

text \<open>
  \<^verbatim>\<open>NewReader\<close> of \<^verbatim>\<open>txtopener.go\<close>. On a short read it returns \<^verbatim>\<open>nr\<close> itself, that
  is, the reader as \<^verbatim>\<open>io.ReadFull\<close> left it.
\<close>

definition NewReader :: "(reader \<Rightarrow> string \<Rightarrow> (failure + reader) \<times> reader) \<Rightarrow> reader \<Rightarrow> failure + reader" where
  "NewReader charset_NewReader r =
     (case charset_NewReader r [] of
        (Inl (Error err), r') \<Rightarrow> if err = EOF then Inr r' else Inl (Panic err)
      | (Inl f, r') \<Rightarrow> Inl f
      | (Inr nr, r') \<Rightarrow>
          (case ReadFull 3 nr of
             ((got, err), nr') \<Rightarrow>
               (let n = length got;
                    bom = got @ replicate (3 - n) 0;
                    go = (if bom ! 0 \<noteq> 0xef \<or> bom ! 1 \<noteq> 0xbb \<or> bom ! 2 \<noteq> 0xbf
                          then Inr (MultiReader (bytes_NewReader bom) nr')
                          else Inr nr')
                in
                  case err of
                    None \<Rightarrow> go
                  | Some er \<Rightarrow>
                      if n < length bom then Inr nr'
                      else if er \<noteq> EOF then Inl (Panic er)
                      else go)))"





section \<open>An instance of the packages for plain text\<close>

text \<open>
  The theorems below hold for every \<open>env\<close>. To evaluate the readers on concrete streams
  the parameters are fixed here, on the part of their domain that those streams use:
  \<^item> \<^verbatim>\<open>charset.Lookup("utf-8")\<close> is \<^verbatim>\<open>encoding.Nop\<close> under the name \<open>utf-8\<close>; no other
    label is interpreted;
  \<^item> \<^verbatim>\<open>mime.ParseMediaType\<close> fails on the empty content type that \<^verbatim>\<open>NewReader\<close> passes;
    no other content type is interpreted;
  \<^item> the tokenizer delivers one text token for a content with no markup in it (no byte
    \<open>0x3C\<close>); no other content is interpreted;
  \<^item> the decoder of \<^verbatim>\<open>charmap.ISO8859_1\<close> writes byte \<open>b\<close> as the UTF-8 encoding of the
    code point \<open>b\<close>: itself below \<open>0x80\<close>, two bytes from there on.
\<close>

definition latin1_to_utf8 :: "byte list \<Rightarrow> byte list" where
  "latin1_to_utf8 bs =
     concat (map (\<lambda>b. if b < 0x80 then [b] else [0xC0 OR drop_bit 6 b, 0x80 OR (b AND 0x3F)]) bs)"

definition plain :: env where
  "plain =
     \<lparr>charset_Lookup = (\<lambda>label. if label = ''utf-8'' then (Some Nop, ''utf-8'') else (None, [])),
      mime_ParseMediaType = (\<lambda>contentType. None),
      html_Tokenizer = (\<lambda>content. if content = [] then [] else [TextToken]),
      transform_NewReader =
        (\<lambda>enc r. if enc = ISO8859_1 then r\<lparr>pending := latin1_to_utf8 (pending r)\<rparr> else r)\<rparr>"

text \<open>
  For the theorems about the meta-tag scan, \<open>labels\<close> is \<^verbatim>\<open>charset.Lookup\<close> on three
  lower-case labels, with the canonical names that the package gives them. The decoders
  of these encodings are not interpreted: \<open>registry\<close> is used for the scan only.
\<close>

definition labels :: "string \<Rightarrow> encoding option \<times> string" where
  "labels label =
     (if label = ''utf-8'' then (Some Nop, ''utf-8'')
      else if label = ''utf-16le'' then (Some (Charset ''utf-16le''), ''utf-16le'')
      else if label = ''windows-1252'' then (Some (Charset ''windows-1252''), ''windows-1252'')
      else (None, []))"

definition registry :: env where
  "registry = plain\<lparr>charset_Lookup := labels\<rparr>"

text \<open>
  The bytes of \<^verbatim>\<open><meta content="charset=utf-8">\<close>, and the instance in which the
  tokenizer reads them as that one start tag.
\<close>

definition meta_content_only :: "byte list" where
  "meta_content_only =
     [0x3C, 0x6D, 0x65, 0x74, 0x61, 0x20, 0x63, 0x6F, 0x6E, 0x74, 0x65, 0x6E, 0x74, 0x3D, 0x22,
      0x63, 0x68, 0x61, 0x72, 0x73, 0x65, 0x74, 0x3D, 0x75, 0x74, 0x66, 0x2D, 0x38, 0x22, 0x3E]"

definition tagged :: env where
  "tagged = registry\<lparr>html_Tokenizer :=
     (\<lambda>content. if content = meta_content_only
                 then [StartTagToken ''meta'' [(''content'', ''charset=utf-8'')]]
                 else html_Tokenizer plain content)\<rparr>"

section \<open>Evaluation on concrete inputs\<close>

text \<open>The equations with which \<open>simp\<close> runs the definitions on a concrete input.\<close>

lemmas plain_eval = plain_def boms_def prescan_def trim_loop.simps RuneStart_def utf8_Valid.simps
  first_def latin1_to_utf8_def determineEncoding_def

lemmas reader_eval = newReader_def ReadFull_def MultiReader_def bytes_NewReader_def ReadAll_def

lemmas scan_eval = registry_def labels_def plain_def lower_def char_of_eq_iff fromMetaElement.simps
  TrimLeft_def whitespace_def IndexAny_def IndexRune_def Let_def

section \<open>Lemmas on the micro-parser\<close>

lemma IndexFunc_None: "IndexFunc s p = None \<longleftrightarrow> (\<forall>c \<in> set s. \<not> p c)"
  by (induction s) auto

lemma IndexFunc_Some: "IndexFunc s p = Some i \<Longrightarrow> take i s = takeWhile (\<lambda>c. \<not> p c) s \<and> (\<exists>c \<in> set s. p c)"
proof (induction s arbitrary: i)
  case Nil
  then show ?case by simp
next
  case (Cons c s)
  then show ?case by (cases "p c") auto
qed

lemma takeWhile_all: "(\<forall>c \<in> set s. P c) \<Longrightarrow> takeWhile P s = s"
  by (induction s) auto

lemma Index_None_iff: "Index s substr = None \<longleftrightarrow> \<not> sublist substr s"
proof (induction s)
  case Nil
  then show ?case by simp
next
  case (Cons c s)
  then show ?case by (auto simp: sublist_Cons_right)
qed

lemma quoted_value:
  "(case IndexRune w q of None \<Rightarrow> [] | Some closeQuote \<Rightarrow> take closeQuote w) =
   (if q \<in> set w then takeWhile (\<lambda>c. c \<noteq> q) w else [])"
proof (cases "IndexRune w q")
  case None
  then have "q \<notin> set w" by (auto simp: IndexRune_def IndexFunc_None)
  with None show ?thesis by simp
next
  case (Some i)
  then have "IndexFunc w (\<lambda>c. c = q) = Some i" by (simp add: IndexRune_def)
  from IndexFunc_Some [OF this] have "take i w = takeWhile (\<lambda>c. c \<noteq> q) w" and "q \<in> set w"
    by auto
  with Some show ?thesis by simp
qed

lemma unquoted_value:
  "take (case IndexAny s chars of None \<Rightarrow> length s | Some i \<Rightarrow> i) s =
   takeWhile (\<lambda>c. c \<notin> set chars) s"
proof (cases "IndexAny s chars")
  case None
  then have "\<forall>c \<in> set s. c \<notin> set chars" by (simp add: IndexAny_def IndexFunc_None)
  then have tw: "takeWhile (\<lambda>c. c \<notin> set chars) s = s" by (rule takeWhile_all)
  show ?thesis unfolding None tw by simp
next
  case (Some i)
  then have "IndexFunc s (\<lambda>c. c \<in> set chars) = Some i" by (simp add: IndexAny_def)
  from IndexFunc_Some [OF this] Some show ?thesis by simp
qed

lemma fromMetaElement_value:
  "(if s2 = [] then []
    else (let q = hd s2 in
          if q = CHR 0x22 \<or> q = CHR 0x27 then
            (let s3 = drop 1 s2 in
             case IndexRune s3 q of None \<Rightarrow> [] | Some closeQuote \<Rightarrow> take closeQuote s3)
          else (let end = (case IndexAny s2 (CHR '';'' # whitespace) of
                             None \<Rightarrow> length s2 | Some i \<Rightarrow> i)
                in take end s2))) = charset_value s2"
proof (cases s2)
  case Nil
  then show ?thesis by simp
next
  case (Cons q w)
  have d: "drop 1 (q # w) = w" by simp
  show ?thesis
  proof (cases "q = CHR 0x22 \<or> q = CHR 0x27")
    case True
    then have "charset_value (q # w) =
          (case IndexRune w q of None \<Rightarrow> [] | Some closeQuote \<Rightarrow> take closeQuote w)"
      using quoted_value [of w q] by simp
    then show ?thesis
      unfolding Cons Let_def d using True by (simp only: list.sel list.simps if_False if_True)
  next
    case False
    then have "charset_value (q # w) =
          take (case IndexAny (q # w) (CHR '';'' # whitespace) of
                  None \<Rightarrow> length (q # w) | Some i \<Rightarrow> i) (q # w)"
      using unquoted_value [of "q # w" "CHR '';'' # whitespace"] by simp
    then show ?thesis
      unfolding Cons Let_def using False by (simp only: list.sel list.simps if_False if_True)
  qed
qed

lemma fromMetaElement_unfold:
  assumes "Index s ''charset'' = Some i"
  shows "fromMetaElement s =
    (let s1 = TrimLeft (drop (i + length ''charset'') s) whitespace in
     if \<not> prefix ''='' s1 then fromMetaElement s1
     else charset_value (TrimLeft (drop 1 s1) whitespace))"
proof -
  from assms have ne: "s \<noteq> []" by auto
  show ?thesis
    by (subst fromMetaElement.simps)
      (simp only: ne assms if_False option.case fromMetaElement_value [unfolded Let_def] Let_def)
qed

section \<open>Lemmas on the resolver and the readers\<close>

lemma content_cap: "(if length c > 10240 then take 10240 c else c) = take 10240 (c :: byte list)"
  by simp

lemma determineEncoding_take:
  "determineEncoding lib (take 10240 c) ct = determineEncoding lib c ct"
  unfolding determineEncoding_def content_cap by simp






lemma ReadFull_whole:
  "final r = EOF \<Longrightarrow>
   MultiReader (bytes_NewReader (fst (fst (ReadFull k r)))) (snd (ReadFull k r)) =
   \<lparr>pending = pending r, final = EOF\<rparr>"
  by (simp add: ReadFull_def MultiReader_def bytes_NewReader_def)

lemma ReadFull_preview: "fst (fst (ReadFull k r)) = take k (pending r)"
  by (simp add: ReadFull_def)

lemma newReader_EOF:
  assumes "final r = EOF" "pending r \<noteq> []"
  shows "fst (newReader lib r ct) =
    (case fst (determineEncoding lib (pending r) ct) of
       None \<Rightarrow> Inl NilDereference
     | Some enc \<Rightarrow> Inr (if enc \<noteq> Nop
                        then transform_NewReader lib enc \<lparr>pending = pending r, final = EOF\<rparr>
                        else \<lparr>pending = pending r, final = EOF\<rparr>))"
proof -
  obtain preview err r' where rf: "ReadFull 10240 r = ((preview, err), r')"
    by (metis prod.collapse)
  have p: "preview = take 10240 (pending r)"
    using ReadFull_preview [of 10240 r] rf by simp
  have e: "err = None \<or> err = Some ErrUnexpectedEOF"
    using rf assms by (auto simp: ReadFull_def split: if_splits)
  have m: "MultiReader (bytes_NewReader (take 10240 (pending r))) r' =
      \<lparr>pending = pending r, final = EOF\<rparr>"
    using ReadFull_whole [OF assms(1), of 10240] rf p by simp
  show ?thesis
    using e
    by (auto simp: newReader_def rf m p determineEncoding_take Let_def split: option.splits)
qed

lemma newReader_empty:
  assumes "final r = EOF" "pending r = []"
  shows "newReader lib r ct = (Inl (Error EOF), r)"
  using assms by (simp add: newReader_def ReadFull_def)





lemma NewReader_001_short:
  assumes "newReader lib r [] = (Inr nr, r')" "final nr = EOF" "length (pending nr) < 3"
  shows "NewReader_001 lib r = Inr (bytes_NewReader (pending nr))"
  using assms by (auto simp: NewReader_001_def ReadFull_def Let_def bytes_NewReader_def)


lemma NewReader_000_short:
  assumes "cnr r [] = (Inr nr, r')" "final nr = EOF" "length (pending nr) < 3"
  shows "NewReader_000 cnr r = Inr (bytes_NewReader (pending nr))"
  using assms by (auto simp: NewReader_000_def ReadFull_def Let_def bytes_NewReader_def)


lemma NewReader_short:
  assumes "cnr r [] = (Inr nr, r')" "length (pending nr) < 3"
  shows "NewReader cnr r = Inr (nr\<lparr>pending := []\<rparr>)"
  using assms by (auto simp: NewReader_def ReadFull_def Let_def)

lemma hasHighBit_iff: "hasHighBit c \<longleftrightarrow> (\<exists>b \<in> set c. b \<ge> 0x80)"
  by (induction c) auto

lemma bom_loop_ascii:
  assumes "\<forall>b \<in> set c. b < 0x80"
  shows "bom_loop lib c boms = None"
proof (cases c)
  case Nil
  then show ?thesis by (simp add: boms_def)
next
  case (Cons b rest)
  with assms have "b < 0x80" by simp
  then have "b \<noteq> 0xfe" "b \<noteq> 0xff" "b \<noteq> 0xef" by auto
  with Cons show ?thesis by (simp add: boms_def)
qed

lemma trim_loop_ascii:
  assumes "\<forall>b \<in> set c. b < 0x80"
  shows "trim_loop c (int (length c) - 1) = c"
proof (cases "c = []")
  case True
  then show ?thesis by (simp add: trim_loop.simps)
next
  case False
  then have "c ! nat (int (length c) - 1) \<in> set c"
    by (simp add: nat_diff_distrib')
  with assms have "c ! nat (int (length c) - 1) < 0x80" by blast
  then show ?thesis by (subst trim_loop.simps) (simp add: Let_def)
qed

lemma determineEncoding_ascii:
  assumes "\<forall>b \<in> set c. b < 0x80" "length c \<le> 10240" "mime_ParseMediaType lib [] = None"
    "fst (prescan lib c) = None"
  shows "determineEncoding lib c [] = (Some ISO8859_1, ''ISO 8859-1'', False)"
proof -
  from assms(1) have hb: "\<not> hasHighBit c" by (auto simp: hasHighBit_iff)
  obtain nm where ps: "prescan lib c = (None, nm)"
    using assms(4) by (cases "prescan lib c") simp
  have cap: "(if length c > 10240 then take 10240 c else c) = c"
    using assms(2) by simp
  have tr: "trim_loop c (int (length c) - 1) = c"
    using assms(1) by (rule trim_loop_ascii)
  show ?thesis
    unfolding determineEncoding_def cap Let_def tr
    by (simp add: bom_loop_ascii [OF assms(1)] assms(3) ps hb)
qed

lemma utf8_Valid_ascii_append:
  "\<forall>b \<in> set pre. b < 0x80 \<Longrightarrow> utf8_Valid (pre @ rest) = utf8_Valid rest"
proof (induction pre)
  case Nil
  then show ?case by simp
next
  case (Cons b pre)
  then show ?case by (subst utf8_Valid.simps) simp
qed

lemma hasHighBit_append: "hasHighBit (xs @ ys) \<longleftrightarrow> hasHighBit xs \<or> hasHighBit ys"
  by (induction xs) auto

lemma bom_loop_first:
  assumes "c \<noteq> []" "hd c \<noteq> 0xfe" "hd c \<noteq> 0xff" "hd c \<noteq> 0xef"
  shows "bom_loop lib c boms = None"
  using assms by (cases c) (simp_all add: boms_def)

lemma trim_loop_complete_rune:
  "trim_loop (pre @ [0xc3, 0xa0]) (int (length (pre @ [0xc3, 0xa0])) - 1) = pre"
proof -
  let ?c = "pre @ [0xc3, 0xa0]"
  have l: "int (length ?c) - 1 = int (length pre) + 1" by simp
  have "trim_loop ?c (int (length pre) + 1) = trim_loop ?c (int (length pre))"
    by (subst trim_loop.simps) (simp add: nth_append nat_add_distrib RuneStart_def Let_def)
  also have "\<dots> = take (length pre) ?c"
    by (subst trim_loop.simps) (simp add: nth_append RuneStart_def Let_def)
  finally show ?thesis unfolding l by simp
qed

lemma later_rules:
  assumes "length c \<le> 10240" "bom_loop lib c boms = None" "mime_ParseMediaType lib ct = None"
    "fst (prescan lib c) = None"
  shows "determineEncoding lib c ct = (Some Nop, ''utf-8'', False) \<or>
         determineEncoding lib c ct = (Some ISO8859_1, ''ISO 8859-1'', False)"
proof -
  obtain nm where ps: "prescan lib c = (None, nm)"
    using assms(4) by (cases "prescan lib c") simp
  have cap: "(if length c > 10240 then take 10240 c else c) = c"
    using assms(1) by simp
  show ?thesis
    unfolding determineEncoding_def cap Let_def
    by (simp add: assms(2) assms(3) ps)
qed


lemma plain_newReader_a:
  "newReader plain (bytes_NewReader [0x61]) [] = (Inr (bytes_NewReader [0x61]), bytes_NewReader [])"
  by (simp add: plain_eval reader_eval)

section \<open>Lemmas on the meta-tag scan\<close>

lemma attrList_step:
  "attrList (attr_step lib (k, v) m) = (if k \<in> set (attrList m) then attrList m else k # attrList m)"
  by (simp add: attr_step_def Let_def split: prod.splits)

lemma gotPragma_step:
  "gotPragma (attr_step lib (k, v) m) =
     (gotPragma m \<or> (k = ''http-equiv'' \<and> k \<notin> set (attrList m) \<and> lower v = ''content-type''))"
  by (simp add: attr_step_def Let_def split: prod.splits)

lemma gotPragma_loop:
  "gotPragma (attr_loop lib attrs m) =
     (gotPragma m \<or> (''http-equiv'' \<notin> set (attrList m) \<and>
        (\<exists>p. map_of attrs ''http-equiv'' = Some p \<and> lower p = ''content-type'')))"
proof (induction attrs arbitrary: m)
  case Nil
  then show ?case by simp
next
  case (Cons kv attrs)
  obtain k v where kv: "kv = (k, v)" by (cases kv)
  show ?case
    unfolding kv attr_loop.simps Cons.IH gotPragma_step attrList_step
    by auto
qed

text \<open>The three variables that the content and charset attributes set.\<close>

lemma other_step:
  assumes "k \<noteq> ''content''" "k \<noteq> ''charset''"
  shows "meta_e (attr_step lib (k, v) m) = meta_e m"
    "meta_name (attr_step lib (k, v) m) = meta_name m"
    "needPragma (attr_step lib (k, v) m) = needPragma m"
  using assms by (simp_all add: attr_step_def Let_def)

lemma seen_step: "k \<in> set (attrList m) \<Longrightarrow> attr_step lib (k, v) m = m"
  by (simp add: attr_step_def)

lemma content_step:
  assumes "''content'' \<notin> set (attrList m)" "meta_e m = None"
    "fromMetaElement (lower v) = cs" "cs \<noteq> []" "charset_Lookup lib cs = (Some enc, nm)"
  shows "meta_e (attr_step lib (''content'', v) m) = Some enc"
    "meta_name (attr_step lib (''content'', v) m) = nm"
    "needPragma (attr_step lib (''content'', v) m) = doNeedPragma"
  using assms by (simp_all add: attr_step_def Let_def)

lemma charset_step:
  assumes "''charset'' \<notin> set (attrList m)" "charset_Lookup lib (lower v) = (enc, nm)"
  shows "meta_e (attr_step lib (''charset'', v) m) = enc"
    "meta_name (attr_step lib (''charset'', v) m) = nm"
    "needPragma (attr_step lib (''charset'', v) m) = doNotNeedPragma"
  using assms by (simp_all add: attr_step_def Let_def)

text \<open>Without a content and a charset attribute still to come, the three variables stay.\<close>

lemma settled_loop:
  assumes "\<forall>kv \<in> set attrs. (fst kv = ''content'' \<or> fst kv = ''charset'') \<longrightarrow> fst kv \<in> set (attrList m)"
  shows "meta_e (attr_loop lib attrs m) = meta_e m \<and>
         meta_name (attr_loop lib attrs m) = meta_name m \<and>
         needPragma (attr_loop lib attrs m) = needPragma m"
  using assms
proof (induction attrs arbitrary: m)
  case Nil
  then show ?case by simp
next
  case (Cons kv attrs)
  obtain k v where kv: "kv = (k, v)" by (cases kv)
  let ?m = "attr_step lib (k, v) m"
  have keep: "meta_e ?m = meta_e m \<and> meta_name ?m = meta_name m \<and> needPragma ?m = needPragma m"
  proof (cases "k \<in> set (attrList m)")
    case True
    then show ?thesis by (simp add: seen_step)
  next
    case False
    with Cons.prems kv have "k \<noteq> ''content''" "k \<noteq> ''charset''" by auto
    then show ?thesis by (simp add: other_step)
  qed
  have "\<forall>kv \<in> set attrs. (fst kv = ''content'' \<or> fst kv = ''charset'') \<longrightarrow> fst kv \<in> set (attrList ?m)"
    using Cons.prems by (auto simp: attrList_step)
  from Cons.IH [OF this] keep show ?case by (simp add: kv)
qed

lemma content_loop:
  assumes "''charset'' \<notin> fst ` set attrs" "map_of attrs ''content'' = Some v"
    "''content'' \<notin> set (attrList m)" "meta_e m = None"
    "fromMetaElement (lower v) = cs" "cs \<noteq> []" "charset_Lookup lib cs = (Some enc, nm)"
  shows "meta_e (attr_loop lib attrs m) = Some enc \<and>
         meta_name (attr_loop lib attrs m) = nm \<and>
         needPragma (attr_loop lib attrs m) = doNeedPragma"
  using assms(1-4)
proof (induction attrs arbitrary: m)
  case Nil
  then show ?case by simp
next
  case (Cons kv attrs)
  obtain k w where kv: "kv = (k, w)" by (cases kv)
  let ?m = "attr_step lib (k, w) m"
  from Cons.prems(1) kv have nc: "k \<noteq> ''charset''" "''charset'' \<notin> fst ` set attrs" by auto
  show ?case
  proof (cases "k = ''content''")
    case True
    with Cons.prems(2) kv have w: "w = v" by simp
    have st: "meta_e ?m = Some enc" "meta_name ?m = nm" "needPragma ?m = doNeedPragma"
      unfolding True w
      using content_step [OF Cons.prems(3) Cons.prems(4) assms(5) assms(6) assms(7)] by auto
    have "\<forall>kv \<in> set attrs. (fst kv = ''content'' \<or> fst kv = ''charset'') \<longrightarrow> fst kv \<in> set (attrList ?m)"
      using nc True Cons.prems(3) by (force simp: attrList_step)
    from settled_loop [OF this] st show ?thesis by (simp add: kv)
  next
    case False
    with Cons.prems(2) kv have mo: "map_of attrs ''content'' = Some v" by simp
    have a: "''content'' \<notin> set (attrList ?m)"
      using False Cons.prems(3) by (simp add: attrList_step)
    have b: "meta_e ?m = None"
      using False nc Cons.prems(4) by (simp add: other_step)
    from Cons.IH [OF nc(2) mo a b] show ?thesis by (simp add: kv)
  qed
qed

lemma charset_loop:
  assumes "''content'' \<notin> fst ` set attrs" "map_of attrs ''charset'' = Some v"
    "''charset'' \<notin> set (attrList m)" "charset_Lookup lib (lower v) = (enc, nm)"
  shows "meta_e (attr_loop lib attrs m) = enc \<and>
         meta_name (attr_loop lib attrs m) = nm \<and>
         needPragma (attr_loop lib attrs m) = doNotNeedPragma"
  using assms(1-3)
proof (induction attrs arbitrary: m)
  case Nil
  then show ?case by simp
next
  case (Cons kv attrs)
  obtain k w where kv: "kv = (k, w)" by (cases kv)
  let ?m = "attr_step lib (k, w) m"
  from Cons.prems(1) kv have nc: "k \<noteq> ''content''" "''content'' \<notin> fst ` set attrs" by auto
  show ?case
  proof (cases "k = ''charset''")
    case True
    with Cons.prems(2) kv have w: "w = v" by simp
    have st: "meta_e ?m = enc" "meta_name ?m = nm" "needPragma ?m = doNotNeedPragma"
      unfolding True w
      using charset_step [OF Cons.prems(3) assms(4)] by auto
    have "\<forall>kv \<in> set attrs. (fst kv = ''content'' \<or> fst kv = ''charset'') \<longrightarrow> fst kv \<in> set (attrList ?m)"
      using nc True Cons.prems(3) by (force simp: attrList_step)
    from settled_loop [OF this] st show ?thesis by (simp add: kv)
  next
    case False
    with Cons.prems(2) kv have mo: "map_of attrs ''charset'' = Some v" by simp
    have a: "''charset'' \<notin> set (attrList ?m)"
      using False Cons.prems(3) by (simp add: attrList_step)
    from Cons.IH [OF nc(2) mo a] show ?thesis by (simp add: kv)
  qed
qed

lemma meta_tag_content:
  assumes "''charset'' \<notin> fst ` set attrs" "map_of attrs ''content'' = Some v"
    "fromMetaElement (lower v) = cs" "cs \<noteq> []" "charset_Lookup lib cs = (Some enc, nm)"
  shows "meta_tag lib ''meta'' attrs =
    (if \<exists>p. map_of attrs ''http-equiv'' = Some p \<and> lower p = ''content-type''
     then Some (if prefix ''utf-16'' nm then (Some Nop, ''utf-8'') else (Some enc, nm))
     else None)"
proof -
  let ?init = "\<lparr>attrList = [], gotPragma = False, needPragma = dontKnow, meta_e = None, meta_name = []\<rparr>"
  have "meta_e (attr_loop lib attrs ?init) = Some enc \<and>
        meta_name (attr_loop lib attrs ?init) = nm \<and>
        needPragma (attr_loop lib attrs ?init) = doNeedPragma"
    by (rule content_loop [OF assms(1) assms(2) _ _ assms(3) assms(4) assms(5)]) simp_all
  moreover have "gotPragma (attr_loop lib attrs ?init) =
      (\<exists>p. map_of attrs ''http-equiv'' = Some p \<and> lower p = ''content-type'')"
    by (simp add: gotPragma_loop)
  ultimately show ?thesis
    by (simp add: meta_tag_def Let_def)
qed

lemma meta_tag_charset:
  assumes "''content'' \<notin> fst ` set attrs" "map_of attrs ''charset'' = Some v"
    "charset_Lookup lib (lower v) = (enc, nm)"
  shows "meta_tag lib ''meta'' attrs =
    (if prefix ''utf-16'' nm then Some (Some Nop, ''utf-8'')
     else if enc \<noteq> None then Some (enc, nm) else None)"
proof -
  let ?init = "\<lparr>attrList = [], gotPragma = False, needPragma = dontKnow, meta_e = None, meta_name = []\<rparr>"
  have "meta_e (attr_loop lib attrs ?init) = enc \<and>
        meta_name (attr_loop lib attrs ?init) = nm \<and>
        needPragma (attr_loop lib attrs ?init) = doNotNeedPragma"
    by (rule charset_loop [OF assms(1) assms(2) _ assms(3)]) simp
  then show ?thesis
    by (simp add: meta_tag_def Let_def)
qed

lemma meta_tag_no_utf16: "meta_tag lib tagName attrs = Some (enc, nm) \<Longrightarrow> \<not> prefix ''utf-16'' nm \<and> enc \<noteq> None"
  by (auto simp: meta_tag_def Let_def split: if_splits) metis+

lemma prescan_tokens_no_utf16:
  "prescan_tokens lib ts = (Some enc, nm) \<Longrightarrow> \<not> prefix ''utf-16'' nm"
proof (induction lib ts rule: prescan_tokens.induct)
  case (3 lib tagName attrs ts)
  then show ?case
    by (cases "meta_tag lib tagName attrs") (auto dest: meta_tag_no_utf16)
next
  case (4 lib tagName attrs ts)
  then show ?case
    by (cases "meta_tag lib tagName attrs") (auto dest: meta_tag_no_utf16)
qed simp_all

lemma no_charset_step:
  assumes "k \<noteq> ''charset''" "needPragma m \<noteq> doNotNeedPragma"
  shows "needPragma (attr_step lib (k, v) m) \<noteq> doNotNeedPragma"
  using assms by (simp add: attr_step_def Let_def split: prod.splits)

lemma no_charset_loop:
  assumes "''charset'' \<notin> fst ` set attrs" "needPragma m \<noteq> doNotNeedPragma"
  shows "needPragma (attr_loop lib attrs m) \<noteq> doNotNeedPragma"
  using assms
proof (induction attrs arbitrary: m)
  case Nil
  then show ?case by simp
next
  case (Cons kv attrs)
  obtain k v where kv: "kv = (k, v)" by (cases kv)
  from Cons.prems kv have "k \<noteq> ''charset''" "''charset'' \<notin> fst ` set attrs" by auto
  with Cons.IH [of "attr_step lib (k, v) m"] no_charset_step [of k m lib v] Cons.prems(2)
  show ?case by (simp add: kv)
qed

lemma meta_tag_no_pragma:
  assumes "''charset'' \<notin> fst ` set attrs"
    "\<not> (\<exists>p. map_of attrs ''http-equiv'' = Some p \<and> lower p = ''content-type'')"
  shows "meta_tag lib tagName attrs = None"
proof -
  let ?m = "attr_loop lib attrs
    \<lparr>attrList = [], gotPragma = False, needPragma = dontKnow, meta_e = None, meta_name = []\<rparr>"
  have "needPragma ?m \<noteq> doNotNeedPragma"
    by (rule no_charset_loop [OF assms(1)]) simp
  moreover have "\<not> gotPragma ?m"
    using assms(2) by (simp add: gotPragma_loop)
  ultimately show ?thesis
    by (cases "needPragma ?m") (simp_all add: meta_tag_def Let_def)
qed

section \<open>The claims\<close>

subsection \<open>C1: a leading UTF-8 BOM is removed\<close>



subsection \<open>C2: the order of the rules in \<^verbatim>\<open>determineEncoding\<close>\<close>

text \<open>
  Claim C2 says that the UTF-8 rule removes a partial rune at the end of the lookahead and
  then asks for a byte from \<open>0x80\<close> on and for valid UTF-8; the comment in the code says
  the same (\<^verbatim>\<open>First eliminate any partial rune at the end\<close>). The loop cuts at the last
  rune-start byte among the last three bytes whether the rune that starts there is
  complete or not. So for ASCII bytes followed by the complete rune \<open>C3 A0\<close>, with no
  declared content type and no meta tag found: the content has a byte from \<open>0x80\<close> on, is
  valid UTF-8 and has no partial rune, and still the result is ISO 8859-1, not the no-op
  encoding, because the rune is cut off and what is left is ASCII.
\<close>

theorem trailing_rune_latin1:
  "(\<forall>b \<in> set pre. b < 0x80) \<and> length pre + 2 \<le> 10240 \<and>
   mime_ParseMediaType lib [] = None \<and> fst (prescan lib (pre @ [0xc3, 0xa0])) = None \<longrightarrow>
     hasHighBit (pre @ [0xc3, 0xa0]) \<and> utf8_Valid (pre @ [0xc3, 0xa0]) \<and>
     determineEncoding lib (pre @ [0xc3, 0xa0]) [] = (Some ISO8859_1, ''ISO 8859-1'', False)"
proof
  let ?c = "pre @ [0xc3, 0xa0]"
  assume h: "(\<forall>b \<in> set pre. b < 0x80) \<and> length pre + 2 \<le> 10240 \<and>
   mime_ParseMediaType lib [] = None \<and> fst (prescan lib ?c) = None"
  then have ascii: "\<forall>b \<in> set pre. b < 0x80" by simp
  have hb: "hasHighBit ?c" by (simp add: hasHighBit_append)
  have "utf8_Valid [0xc3, 0xa0]" by (simp add: utf8_Valid.simps first_def)
  then have va: "utf8_Valid ?c" using utf8_Valid_ascii_append [OF ascii] by simp
  have nhb: "\<not> hasHighBit pre" using ascii by (auto simp: hasHighBit_iff)
  have "hd ?c < 0x80 \<or> hd ?c = 0xc3" using ascii by (cases pre) auto
  then have "hd ?c \<noteq> 0xfe" "hd ?c \<noteq> 0xff" "hd ?c \<noteq> 0xef" by auto
  then have bl: "bom_loop lib ?c boms = None" by (intro bom_loop_first) auto
  obtain nm where ps: "prescan lib ?c = (None, nm)"
    using h by (cases "prescan lib ?c") simp
  have cap: "(if length ?c > 10240 then take 10240 ?c else ?c) = ?c"
    using h by simp
  have "determineEncoding lib ?c [] = (Some ISO8859_1, ''ISO 8859-1'', False)"
    unfolding determineEncoding_def cap Let_def trim_loop_complete_rune
    using h by (simp add: bl ps nhb)
  with hb va show "hasHighBit ?c \<and> utf8_Valid ?c \<and>
     determineEncoding lib ?c [] = (Some ISO8859_1, ''ISO 8859-1'', False)" by simp
qed

text \<open>The theorem on the six bytes \<open>76 6F 69 6C C3 A0\<close>, the UTF-8 text \<^verbatim>\<open>voil\<close> and \<open>U+00E0\<close>.\<close>

theorem trailing_rune_latin1_witness:
  "hasHighBit [0x76, 0x6f, 0x69, 0x6c, 0xc3, 0xa0] \<and> utf8_Valid [0x76, 0x6f, 0x69, 0x6c, 0xc3, 0xa0] \<and>
   determineEncoding plain [0x76, 0x6f, 0x69, 0x6c, 0xc3, 0xa0] [] =
     (Some ISO8859_1, ''ISO 8859-1'', False)"
  using trailing_rune_latin1 [of "[0x76, 0x6f, 0x69, 0x6c]" plain]
  by (simp add: plain_def prescan_def)

subsection \<open>C3: streams shorter than the BOM\<close>

text \<open>
  Claim C3, as the code has it, for the two versions that return \<^verbatim>\<open>bytes.NewReader(bom[:n])\<close>
  on a short read. When the decoded stream (what \<^verbatim>\<open>newReader\<close> or \<^verbatim>\<open>charset.NewReader\<close>
  returns) has fewer than three bytes and ends regularly, \<^verbatim>\<open>NewReader\<close> does not panic
  and returns exactly those bytes. They are the bytes of the input when the input is ASCII:
  there the fallback decoder of ISO 8859-1 changes nothing, provided that the empty
  content type does not parse and the scan finds no meta tag.
\<close>

theorem short_stream:
  "(newReader lib r [] = (Inr nr, r') \<and> final nr = EOF \<and> length (pending nr) < 3 \<longrightarrow>
      NewReader_001 lib r = Inr (bytes_NewReader (pending nr))) \<and>
   (charset_NewReader r [] = (Inr nr, r') \<and> final nr = EOF \<and> length (pending nr) < 3 \<longrightarrow>
      NewReader_000 charset_NewReader r = Inr (bytes_NewReader (pending nr))) \<and>
   (final r = EOF \<and> length (pending r) < 3 \<and> (\<forall>b \<in> set (pending r). b < 0x80) \<and>
    mime_ParseMediaType lib [] = None \<and> fst (prescan lib (pending r)) = None \<and>
    transform_NewReader lib ISO8859_1 \<lparr>pending = pending r, final = EOF\<rparr> =
      \<lparr>pending = pending r, final = EOF\<rparr> \<longrightarrow>
      (\<exists>out. NewReader_001 lib r = Inr out \<and> ReadAll out = (pending r, None)))"
proof (intro conjI impI)
  assume "newReader lib r [] = (Inr nr, r') \<and> final nr = EOF \<and> length (pending nr) < 3"
  then show "NewReader_001 lib r = Inr (bytes_NewReader (pending nr))"
    using NewReader_001_short [of lib r nr r'] by simp
next
  assume "charset_NewReader r [] = (Inr nr, r') \<and> final nr = EOF \<and> length (pending nr) < 3"
  then show "NewReader_000 charset_NewReader r = Inr (bytes_NewReader (pending nr))"
    using NewReader_000_short [of charset_NewReader r nr r'] by simp
next
  assume h: "final r = EOF \<and> length (pending r) < 3 \<and> (\<forall>b \<in> set (pending r). b < 0x80) \<and>
    mime_ParseMediaType lib [] = None \<and> fst (prescan lib (pending r)) = None \<and>
    transform_NewReader lib ISO8859_1 \<lparr>pending = pending r, final = EOF\<rparr> =
      \<lparr>pending = pending r, final = EOF\<rparr>"
  show "\<exists>out. NewReader_001 lib r = Inr out \<and> ReadAll out = (pending r, None)"
  proof (cases "pending r = []")
    case True
    with h have "newReader lib r [] = (Inl (Error EOF), r)" by (simp add: newReader_empty)
    then have "NewReader_001 lib r = Inr r" by (simp add: NewReader_001_def)
    with h True show ?thesis by (simp add: ReadAll_def)
  next
    case False
    from h have "determineEncoding lib (pending r) [] = (Some ISO8859_1, ''ISO 8859-1'', False)"
      by (intro determineEncoding_ascii) auto
    with h False have "fst (newReader lib r []) = Inr \<lparr>pending = pending r, final = EOF\<rparr>"
      using newReader_EOF [of r lib "[]"] by simp
    then obtain r' where "newReader lib r [] = (Inr \<lparr>pending = pending r, final = EOF\<rparr>, r')"
      by (metis prod.collapse)
    from NewReader_001_short [OF this] h
    have "NewReader_001 lib r = Inr (bytes_NewReader (pending r))" by simp
    then show ?thesis by (simp add: ReadAll_def bytes_NewReader_def)
  qed
qed

text \<open>The theorem on the one-byte stream \<open>61\<close>.\<close>

theorem short_stream_witness:
  "NewReader_001 plain (bytes_NewReader [0x61]) = Inr (bytes_NewReader [0x61]) \<and>
   NewReader_000 (newReader plain) (bytes_NewReader [0x61]) = Inr (bytes_NewReader [0x61]) \<and>
   (\<exists>out. NewReader_001 plain (bytes_NewReader [0x61]) = Inr out \<and> ReadAll out = ([0x61], None))"
proof -
  let ?r = "bytes_NewReader [0x61]"
  have a: "newReader plain ?r [] = (Inr ?r, bytes_NewReader []) \<and> final ?r = EOF \<and>
      length (pending ?r) < 3"
    using plain_newReader_a by (simp add: bytes_NewReader_def)
  have b: "final ?r = EOF \<and> length (pending ?r) < 3 \<and> (\<forall>b \<in> set (pending ?r). b < 0x80) \<and>
    mime_ParseMediaType plain [] = None \<and> fst (prescan plain (pending ?r)) = None \<and>
    transform_NewReader plain ISO8859_1 \<lparr>pending = pending ?r, final = EOF\<rparr> =
      \<lparr>pending = pending ?r, final = EOF\<rparr>"
    by (simp add: bytes_NewReader_def plain_def prescan_def latin1_to_utf8_def)
  from short_stream [of plain ?r ?r "bytes_NewReader []" "newReader plain"] a b
  show ?thesis by (simp add: bytes_NewReader_def ReadAll_def)
qed

text \<open>
  Claim C3 as it is stated fails on its own example, the single byte \<open>EF\<close>: it is no
  valid UTF-8, so the fallback reads it as ISO 8859-1 and the stream returned holds the
  two bytes \<open>C3 AF\<close>.
\<close>

theorem short_input_counterexample:
  "NewReader_001 plain (bytes_NewReader [0xef]) = Inr (bytes_NewReader [0xc3, 0xaf]) \<and>
   ReadAll (bytes_NewReader [0xc3, 0xaf]) = ([0xc3, 0xaf], None)"
  by (simp add: NewReader_001_def plain_eval reader_eval)

subsection \<open>C4: the pragma in the meta-tag scan\<close>

text \<open>
  Claim C4, for a start tag or a self-closing tag \<open>meta\<close>. The attributes count by their
  first occurrence, so they are read through \<open>map_of\<close>, in whatever order they come.
  \<^item> A tag with no \<open>charset\<close> attribute and no \<open>http-equiv\<close> attribute of value
    \<open>content-type\<close> contributes nothing, whatever its \<open>content\<close> attribute declares: the
    scan goes on with the next token.
  \<^item> With that pragma on the same tag the charset declared in \<open>content\<close> is accepted, be
    the pragma before or after the \<open>content\<close> attribute.
  \<^item> A \<open>charset\<close> attribute on a tag with no \<open>content\<close> attribute is accepted with no
    pragma.
  \<^item> When a content with no BOM and no declared content type consists of one tag of the
    first kind, the resolver goes on to its last two rules.
  The accepted names here are those that do not start with \<open>utf-16\<close>; C7 has the others.
\<close>

theorem pragma_required:
  "(tok = StartTagToken ''meta'' attrs \<or> tok = SelfClosingTagToken ''meta'' attrs) \<longrightarrow>
   (''charset'' \<notin> fst ` set attrs \<and>
    \<not> (\<exists>p. map_of attrs ''http-equiv'' = Some p \<and> lower p = ''content-type'') \<longrightarrow>
      prescan_tokens lib (tok # ts) = prescan_tokens lib ts) \<and>
   (''charset'' \<notin> fst ` set attrs \<and>
    (\<exists>p. map_of attrs ''http-equiv'' = Some p \<and> lower p = ''content-type'') \<and>
    map_of attrs ''content'' = Some v \<and> fromMetaElement (lower v) \<noteq> [] \<and>
    charset_Lookup lib (fromMetaElement (lower v)) = (Some enc, nm) \<and> \<not> prefix ''utf-16'' nm \<longrightarrow>
      prescan_tokens lib (tok # ts) = (Some enc, nm)) \<and>
   (''content'' \<notin> fst ` set attrs \<and> map_of attrs ''charset'' = Some x \<and>
    charset_Lookup lib (lower x) = (Some enc, nm) \<and> \<not> prefix ''utf-16'' nm \<longrightarrow>
      prescan_tokens lib (tok # ts) = (Some enc, nm)) \<and>
   (length c \<le> 10240 \<and> bom_loop lib c boms = None \<and> mime_ParseMediaType lib ct = None \<and>
    html_Tokenizer lib c = [tok] \<and> ''charset'' \<notin> fst ` set attrs \<and>
    \<not> (\<exists>p. map_of attrs ''http-equiv'' = Some p \<and> lower p = ''content-type'') \<longrightarrow>
      determineEncoding lib c ct = (Some Nop, ''utf-8'', False) \<or>
      determineEncoding lib c ct = (Some ISO8859_1, ''ISO 8859-1'', False))"
proof (intro impI conjI)
  assume tok: "tok = StartTagToken ''meta'' attrs \<or> tok = SelfClosingTagToken ''meta'' attrs"
  then have step: "prescan_tokens lib (tok # ts) =
      (case meta_tag lib ''meta'' attrs of Some found \<Rightarrow> found | None \<Rightarrow> prescan_tokens lib ts)" for ts
    by auto
  {
    assume "''charset'' \<notin> fst ` set attrs \<and>
      \<not> (\<exists>p. map_of attrs ''http-equiv'' = Some p \<and> lower p = ''content-type'')"
    then have "meta_tag lib ''meta'' attrs = None"
      using meta_tag_no_pragma by blast
    then show "prescan_tokens lib (tok # ts) = prescan_tokens lib ts"
      by (simp add: step)
  }
  {
    assume h: "''charset'' \<notin> fst ` set attrs \<and>
      (\<exists>p. map_of attrs ''http-equiv'' = Some p \<and> lower p = ''content-type'') \<and>
      map_of attrs ''content'' = Some v \<and> fromMetaElement (lower v) \<noteq> [] \<and>
      charset_Lookup lib (fromMetaElement (lower v)) = (Some enc, nm) \<and> \<not> prefix ''utf-16'' nm"
    then have "meta_tag lib ''meta'' attrs = Some (Some enc, nm)"
      using meta_tag_content [of attrs v "fromMetaElement (lower v)" lib enc nm] by simp
    then show "prescan_tokens lib (tok # ts) = (Some enc, nm)"
      by (simp add: step)
  }
  {
    assume h: "''content'' \<notin> fst ` set attrs \<and> map_of attrs ''charset'' = Some x \<and>
      charset_Lookup lib (lower x) = (Some enc, nm) \<and> \<not> prefix ''utf-16'' nm"
    then have "meta_tag lib ''meta'' attrs = Some (Some enc, nm)"
      using meta_tag_charset [of attrs x lib "Some enc" nm] by simp
    then show "prescan_tokens lib (tok # ts) = (Some enc, nm)"
      by (simp add: step)
  }
  {
    assume h: "length c \<le> 10240 \<and> bom_loop lib c boms = None \<and> mime_ParseMediaType lib ct = None \<and>
      html_Tokenizer lib c = [tok] \<and> ''charset'' \<notin> fst ` set attrs \<and>
      \<not> (\<exists>p. map_of attrs ''http-equiv'' = Some p \<and> lower p = ''content-type'')"
    then have "meta_tag lib ''meta'' attrs = None"
      using meta_tag_no_pragma by blast
    with h have "fst (prescan lib c) = None"
      by (simp add: prescan_def step)
    with h show "determineEncoding lib c ct = (Some Nop, ''utf-8'', False) \<or>
      determineEncoding lib c ct = (Some ISO8859_1, ''ISO 8859-1'', False)"
      using later_rules by blast
  }
qed

text \<open>
  The theorem on a tag with \<open>content\<close> only, on a tag with \<open>content\<close> before the
  pragma, on a tag with \<open>charset\<close> only, and on the content \<open>meta_content_only\<close>.
\<close>

theorem pragma_required_witness:
  "prescan_tokens registry
     [StartTagToken ''meta'' [(''content'', ''text/html; charset=windows-1252'')], TextToken] =
     prescan_tokens registry [TextToken] \<and>
   prescan_tokens registry
     [StartTagToken ''meta'' [(''content'', ''text/html; charset=windows-1252''),
                               (''http-equiv'', ''Content-Type'')], TextToken] =
     (Some (Charset ''windows-1252''), ''windows-1252'') \<and>
   prescan_tokens registry [SelfClosingTagToken ''meta'' [(''charset'', ''Windows-1252'')], TextToken] =
     (Some (Charset ''windows-1252''), ''windows-1252'') \<and>
   (determineEncoding tagged meta_content_only [] = (Some Nop, ''utf-8'', False) \<or>
    determineEncoding tagged meta_content_only [] = (Some ISO8859_1, ''ISO 8859-1'', False))"
proof -
  let ?a = "[(''content'', ''text/html; charset=windows-1252'')]"
  let ?b = "[(''content'', ''text/html; charset=windows-1252''), (''http-equiv'', ''Content-Type'')]"
  let ?c = "[(''charset'', ''Windows-1252'')]"
  let ?d = "[(''content'', ''charset=utf-8'')]"
  have 1: "prescan_tokens registry [StartTagToken ''meta'' ?a, TextToken] =
      prescan_tokens registry [TextToken]"
    using pragma_required [where tok = "StartTagToken ''meta'' ?a" and attrs = ?a and lib = registry
        and ts = "[TextToken]"]
    by simp
  have fm: "fromMetaElement (lower ''text/html; charset=windows-1252'') = ''windows-1252''"
    by (simp add: scan_eval)
  have 2: "prescan_tokens registry [StartTagToken ''meta'' ?b, TextToken] =
      (Some (Charset ''windows-1252''), ''windows-1252'')"
    using pragma_required [where tok = "StartTagToken ''meta'' ?b" and attrs = ?b and lib = registry
        and ts = "[TextToken]" and v = "''text/html; charset=windows-1252''"
        and enc = "Charset ''windows-1252''" and nm = "''windows-1252''"] fm
    by (simp add: scan_eval)
  have 3: "prescan_tokens registry [SelfClosingTagToken ''meta'' ?c, TextToken] =
      (Some (Charset ''windows-1252''), ''windows-1252'')"
    using pragma_required [where tok = "SelfClosingTagToken ''meta'' ?c" and attrs = ?c and lib = registry
        and ts = "[TextToken]" and x = "''Windows-1252''"
        and enc = "Charset ''windows-1252''" and nm = "''windows-1252''"]
    by (simp add: scan_eval)
  have 4: "determineEncoding tagged meta_content_only [] = (Some Nop, ''utf-8'', False) \<or>
    determineEncoding tagged meta_content_only [] = (Some ISO8859_1, ''ISO 8859-1'', False)"
    using pragma_required [where tok = "StartTagToken ''meta'' ?d" and attrs = ?d and lib = tagged
        and c = meta_content_only and ct = "[]"]
    by (simp add: tagged_def registry_def plain_def boms_def meta_content_only_def)
  from 1 2 3 4 show ?thesis by blast
qed

subsection \<open>C5: running the pipeline on its own output\<close>




subsection \<open>C6: failures of the source\<close>




subsection \<open>C7: a meta tag that declares UTF-16\<close>

text \<open>
  Claim C7. The scan never returns a name that starts with \<open>utf-16\<close>. When the name that
  the registry gives for the \<open>charset\<close> attribute of a meta tag, or for the charset in
  its \<open>content\<close> attribute with the pragma on the same tag, starts with \<open>utf-16\<close>, the
  scan returns the no-op encoding under the name \<open>utf-8\<close>.
\<close>

theorem utf16_meta_is_utf8:
  "(prescan_tokens lib ts = (Some enc, nm) \<longrightarrow> \<not> prefix ''utf-16'' nm) \<and>
   ((tok = StartTagToken ''meta'' attrs \<or> tok = SelfClosingTagToken ''meta'' attrs) \<and>
    ''content'' \<notin> fst ` set attrs \<and> map_of attrs ''charset'' = Some x \<and>
    prefix ''utf-16'' (snd (charset_Lookup lib (lower x))) \<longrightarrow>
      prescan_tokens lib (tok # ts) = (Some Nop, ''utf-8'')) \<and>
   ((tok = StartTagToken ''meta'' attrs \<or> tok = SelfClosingTagToken ''meta'' attrs) \<and>
    ''charset'' \<notin> fst ` set attrs \<and>
    (\<exists>p. map_of attrs ''http-equiv'' = Some p \<and> lower p = ''content-type'') \<and>
    map_of attrs ''content'' = Some v \<and> fromMetaElement (lower v) \<noteq> [] \<and>
    charset_Lookup lib (fromMetaElement (lower v)) = (Some found, label) \<and>
    prefix ''utf-16'' label \<longrightarrow>
      prescan_tokens lib (tok # ts) = (Some Nop, ''utf-8''))"
proof (intro conjI impI)
  assume "prescan_tokens lib ts = (Some enc, nm)"
  then show "\<not> prefix ''utf-16'' nm" by (rule prescan_tokens_no_utf16)
next
  assume h: "(tok = StartTagToken ''meta'' attrs \<or> tok = SelfClosingTagToken ''meta'' attrs) \<and>
    ''content'' \<notin> fst ` set attrs \<and> map_of attrs ''charset'' = Some x \<and>
    prefix ''utf-16'' (snd (charset_Lookup lib (lower x)))"
  obtain e0 n0 where lk: "charset_Lookup lib (lower x) = (e0, n0)"
    by (cases "charset_Lookup lib (lower x)")
  with h have "meta_tag lib ''meta'' attrs = Some (Some Nop, ''utf-8'')"
    using meta_tag_charset [of attrs x lib e0 n0] by simp
  with h show "prescan_tokens lib (tok # ts) = (Some Nop, ''utf-8'')" by auto
next
  assume h: "(tok = StartTagToken ''meta'' attrs \<or> tok = SelfClosingTagToken ''meta'' attrs) \<and>
    ''charset'' \<notin> fst ` set attrs \<and>
    (\<exists>p. map_of attrs ''http-equiv'' = Some p \<and> lower p = ''content-type'') \<and>
    map_of attrs ''content'' = Some v \<and> fromMetaElement (lower v) \<noteq> [] \<and>
    charset_Lookup lib (fromMetaElement (lower v)) = (Some found, label) \<and>
    prefix ''utf-16'' label"
  then have "meta_tag lib ''meta'' attrs = Some (Some Nop, ''utf-8'')"
    using meta_tag_content [of attrs v "fromMetaElement (lower v)" lib found label] by simp
  with h show "prescan_tokens lib (tok # ts) = (Some Nop, ''utf-8'')" by auto
qed

text \<open>
  The theorem on a tag that declares \<open>windows-1252\<close>, and on two tags that declare
  \<open>utf-16le\<close>, one by \<open>charset\<close> and one by \<open>content\<close> with the pragma.
\<close>

theorem utf16_meta_is_utf8_witness:
  "\<not> prefix ''utf-16'' ''windows-1252'' \<and>
   prescan_tokens registry [StartTagToken ''meta'' [(''charset'', ''UTF-16LE'')], TextToken] =
     (Some Nop, ''utf-8'') \<and>
   prescan_tokens registry
     [StartTagToken ''meta'' [(''http-equiv'', ''content-type''),
                               (''content'', ''text/html; charset=utf-16le'')], TextToken] =
     (Some Nop, ''utf-8'')"
proof -
  let ?w = "[SelfClosingTagToken ''meta'' [(''charset'', ''Windows-1252'')], TextToken]"
  let ?a = "[(''charset'', ''UTF-16LE'')]"
  let ?b = "[(''http-equiv'', ''content-type''), (''content'', ''text/html; charset=utf-16le'')]"
  have "prescan_tokens registry ?w = (Some (Charset ''windows-1252''), ''windows-1252'')"
    by (simp add: meta_tag_def attr_step_def scan_eval)
  then have 1: "\<not> prefix ''utf-16'' ''windows-1252''"
    using utf16_meta_is_utf8 [where lib = registry and ts = ?w
        and enc = "Charset ''windows-1252''" and nm = "''windows-1252''"]
    by blast
  have 2: "prescan_tokens registry [StartTagToken ''meta'' ?a, TextToken] = (Some Nop, ''utf-8'')"
    using utf16_meta_is_utf8 [where tok = "StartTagToken ''meta'' ?a" and attrs = ?a
        and lib = registry and ts = "[TextToken]" and x = "''UTF-16LE''"]
    by (simp add: scan_eval)
  have fm: "fromMetaElement (lower ''text/html; charset=utf-16le'') = ''utf-16le''"
    by (simp add: scan_eval)
  have 3: "prescan_tokens registry [StartTagToken ''meta'' ?b, TextToken] = (Some Nop, ''utf-8'')"
    using utf16_meta_is_utf8 [where tok = "StartTagToken ''meta'' ?b" and attrs = ?b
        and lib = registry and ts = "[TextToken]" and v = "''text/html; charset=utf-16le''"
        and found = "Charset ''utf-16le''" and label = "''utf-16le''"] fm
    by (simp add: scan_eval)
  from 1 2 3 show ?thesis by blast
qed

subsection \<open>C8: the bytes behind the lookahead\<close>

text \<open>
  Claim C8. Two contents with the same first 10240 bytes and the same declared content
  type get the same encoding, the same name and the same certainty from
  \<^verbatim>\<open>determineEncoding\<close>.
\<close>

theorem lookahead_cap:
  "take 10240 c1 = take 10240 c2 \<longrightarrow>
     determineEncoding lib c1 contentType = determineEncoding lib c2 contentType"
proof
  assume "take 10240 c1 = take 10240 c2"
  then show "determineEncoding lib c1 contentType = determineEncoding lib c2 contentType"
    using determineEncoding_take [of lib c1 contentType] determineEncoding_take [of lib c2 contentType]
    by simp
qed

text \<open>The theorem on two contents that differ from byte 10240 on.\<close>

theorem lookahead_cap_witness:
  "determineEncoding plain (replicate 10240 0x61 @ [0xc3, 0xa9, 0x62]) [] =
   determineEncoding plain (replicate 10240 0x61 @ [0x62]) []"
  using lookahead_cap [of "replicate 10240 0x61 @ [0xc3, 0xa9, 0x62]" "replicate 10240 0x61 @ [0x62]"
      plain "[]"]
  by simp

subsection \<open>C9: the micro-parser\<close>

text \<open>
  Claim C9, as the code has it. \<^verbatim>\<open>fromMetaElement\<close> returns the empty string when
  \<open>charset\<close> does not occur in \<open>s\<close>. Otherwise it takes the first occurrence and skips the
  whitespace behind it. If no \<open>=\<close> follows, the search starts again in what is left (the
  result is that of the remainder, not the empty string). If \<open>=\<close> follows, whitespace is
  skipped and the result is the quoted value up to the matching quote, empty when the
  quote is not closed or nothing follows, or the unquoted token up to whitespace or \<open>;\<close>.
\<close>

theorem fromMetaElement_parse:
  "(\<not> sublist ''charset'' s \<longrightarrow> fromMetaElement s = []) \<and>
   (\<forall>i t. Index s ''charset'' = Some i \<and>
           t = TrimLeft (drop (i + length ''charset'') s) whitespace \<longrightarrow>
      (\<not> prefix ''='' t \<longrightarrow> fromMetaElement s = fromMetaElement t) \<and>
      (\<forall>u. t = CHR ''='' # u \<longrightarrow> fromMetaElement s = charset_value (TrimLeft u whitespace)))"
proof (intro conjI impI allI)
  assume "\<not> sublist ''charset'' s"
  then have "Index s ''charset'' = None" by (simp add: Index_None_iff)
  then show "fromMetaElement s = []" by (simp add: fromMetaElement.simps [of s])
next
  fix i t
  assume h: "Index s ''charset'' = Some i \<and>
    t = TrimLeft (drop (i + length ''charset'') s) whitespace"
  assume "\<not> prefix ''='' t"
  with h fromMetaElement_unfold [of s i] show "fromMetaElement s = fromMetaElement t"
    by (simp add: Let_def)
next
  fix i t u
  assume h: "Index s ''charset'' = Some i \<and>
    t = TrimLeft (drop (i + length ''charset'') s) whitespace"
  assume "t = CHR ''='' # u"
  with h have eq: "TrimLeft (drop (i + length ''charset'') s) whitespace = CHR ''='' # u"
    by simp
  from h have "Index s ''charset'' = Some i" by simp
  from fromMetaElement_unfold [OF this]
  show "fromMetaElement s = charset_value (TrimLeft u whitespace)"
    unfolding Let_def eq by simp
qed

text \<open>
  The theorem above on three strings: one without \<open>charset\<close>, one whose first \<open>charset\<close>
  has no \<open>=\<close>, and one with an unquoted value.
\<close>

theorem fromMetaElement_parse_witness:
  "fromMetaElement ''text/html'' = [] \<and>
   fromMetaElement ''charset charset=x'' = fromMetaElement ''charset=x'' \<and>
   fromMetaElement ''text/html; charset = utf-8; x'' = ''utf-8''"
proof -
  have a: "\<not> sublist ''charset'' ''text/html''"
    by (simp add: Index_None_iff [symmetric])
  have b: "Index ''charset charset=x'' ''charset'' = Some 0 \<and>
      ''charset=x'' = TrimLeft (drop (0 + length ''charset'') ''charset charset=x'') whitespace"
    by (simp add: TrimLeft_def whitespace_def)
  have b': "\<not> prefix ''='' ''charset=x''" by simp
  have c: "Index ''text/html; charset = utf-8; x'' ''charset'' = Some 11 \<and>
      ''= utf-8; x'' = TrimLeft (drop (11 + length ''charset'') ''text/html; charset = utf-8; x'') whitespace"
    by (simp add: TrimLeft_def whitespace_def)
  have c': "charset_value (TrimLeft '' utf-8; x'' whitespace) = ''utf-8''"
    by (simp add: TrimLeft_def whitespace_def)
  from fromMetaElement_parse [of "''text/html''"] a
  have 1: "fromMetaElement ''text/html'' = []" by blast
  from fromMetaElement_parse [of "''charset charset=x''"] b b'
  have 2: "fromMetaElement ''charset charset=x'' = fromMetaElement ''charset=x''" by blast
  from fromMetaElement_parse [of "''text/html; charset = utf-8; x''"] c
  have "fromMetaElement ''text/html; charset = utf-8; x'' = charset_value (TrimLeft '' utf-8; x'' whitespace)"
    by blast
  with c' 1 2 show ?thesis by simp
qed

text \<open>
  Claim C9 as it is stated says that a missing \<open>=\<close> gives the empty string. In
  \<^verbatim>\<open>charset charset=x\<close> the first \<open>charset\<close> is followed by no \<open>=\<close>, and the result
  is not empty: the loop goes on to the second occurrence.
\<close>

theorem fromMetaElement_missing_eq_counterexample:
  "Index ''charset charset=x'' ''charset'' = Some 0 \<and>
   \<not> prefix ''='' (TrimLeft (drop (0 + length ''charset'') ''charset charset=x'') whitespace) \<and>
   fromMetaElement ''charset charset=x'' \<noteq> []"
  by (simp add: fromMetaElement.simps TrimLeft_def whitespace_def IndexAny_def IndexRune_def)

subsection \<open>C10: the three versions of \<^verbatim>\<open>NewReader\<close>\<close>

text \<open>
  Claim C10 says that the three versions return the same bytes, also on streams of fewer
  than three decoded bytes. When \<^verbatim>\<open>charset.NewReader\<close> returns a stream of one or two
  bytes that ends regularly, the version of \<^verbatim>\<open>txtopener.go\<close> returns a reader with
  nothing left to read: on the short read it returns \<^verbatim>\<open>nr\<close>, from which \<^verbatim>\<open>io.ReadFull\<close>
  has taken the bytes. The version that calls \<^verbatim>\<open>charset.NewReader\<close> and returns
  \<^verbatim>\<open>bytes.NewReader(bom[:n])\<close> gives the bytes back, and so does the version with its own
  \<^verbatim>\<open>newReader\<close> when that is the function in the place of \<^verbatim>\<open>charset.NewReader\<close>.
\<close>

theorem short_read_versions_differ:
  "charset_NewReader r [] = (Inr nr, r') \<and> pending nr \<noteq> [] \<and> length (pending nr) < 3 \<and>
   final nr = EOF \<longrightarrow>
     (\<exists>out. NewReader charset_NewReader r = Inr out \<and> ReadAll out = ([], None)) \<and>
     (\<exists>out. NewReader_000 charset_NewReader r = Inr out \<and> ReadAll out = (pending nr, None)) \<and>
     (charset_NewReader = newReader lib \<longrightarrow>
        (\<exists>out. NewReader_001 lib r = Inr out \<and> ReadAll out = (pending nr, None)))"
proof (intro impI conjI)
  assume h: "charset_NewReader r [] = (Inr nr, r') \<and> pending nr \<noteq> [] \<and> length (pending nr) < 3 \<and>
   final nr = EOF"
  then have "NewReader charset_NewReader r = Inr (nr\<lparr>pending := []\<rparr>)"
    using NewReader_short [of charset_NewReader r nr r'] by simp
  with h show "\<exists>out. NewReader charset_NewReader r = Inr out \<and> ReadAll out = ([], None)"
    by (simp add: ReadAll_def)
  from h have "NewReader_000 charset_NewReader r = Inr (bytes_NewReader (pending nr))"
    using NewReader_000_short [of charset_NewReader r nr r'] by simp
  then show "\<exists>out. NewReader_000 charset_NewReader r = Inr out \<and> ReadAll out = (pending nr, None)"
    by (simp add: ReadAll_def bytes_NewReader_def)
  assume "charset_NewReader = newReader lib"
  with h have "NewReader_001 lib r = Inr (bytes_NewReader (pending nr))"
    using NewReader_001_short [of lib r nr r'] by simp
  then show "\<exists>out. NewReader_001 lib r = Inr out \<and> ReadAll out = (pending nr, None)"
    by (simp add: ReadAll_def bytes_NewReader_def)
qed

text \<open>The theorem on the one-byte stream \<open>61\<close>.\<close>

theorem short_read_versions_differ_witness:
  "(\<exists>out. NewReader (newReader plain) (bytes_NewReader [0x61]) = Inr out \<and> ReadAll out = ([], None)) \<and>
   (\<exists>out. NewReader_000 (newReader plain) (bytes_NewReader [0x61]) = Inr out \<and>
          ReadAll out = ([0x61], None)) \<and>
   (\<exists>out. NewReader_001 plain (bytes_NewReader [0x61]) = Inr out \<and> ReadAll out = ([0x61], None))"
  using short_read_versions_differ [of "newReader plain" "bytes_NewReader [0x61]"
      "bytes_NewReader [0x61]" "bytes_NewReader []" plain] plain_newReader_a
  by (simp add: bytes_NewReader_def)

end
